theory Spec2Isabelle
  imports Main "HOL-Library.Word"
begin

unbundle bit_operations_syntax

section \<open>The mailbox of package dispatch\<close>

text \<open>
  The development follows \<^verbatim>\<open>Mailbox\<close> of package \<^verbatim>\<open>dispatch\<close>
  (second document of \<^verbatim>\<open>src/actor/actor_system_impl.go\<close>). The status word is a
  Go \<^verbatim>\<open>int32\<close>: a \<open>32 word\<close>, whose \<open>+\<close> and \<open>-\<close> wrap around as Go's do and
  whose comparisons \<^verbatim>\<open>>=\<close> and \<^verbatim>\<open><\<close> are the signed ones (\<open>\<le>s\<close>, \<open><s\<close>).
  The model is sequential: one thread runs each operation to its end, so an atomic load is a
  read of the field, an atomic store a write, and a compare-and-swap compares with the field
  as it is at that moment.
\<close>

subsection \<open>Status constants\<close>

type_synonym int32 = "32 word"

definition MailboxStatusOpen :: int32 where
  "MailboxStatusOpen = 0"

definition MailboxStatusClosed :: int32 where
  "MailboxStatusClosed = 1"

definition MailboxStatusScheduled :: int32 where
  "MailboxStatusScheduled = 2"

definition MailboxStatusShouldScheduleMask :: int32 where
  "MailboxStatusShouldScheduleMask = 3"

definition MailboxStatusShouldNotProcessMask :: int32 where
  "MailboxStatusShouldNotProcessMask = NOT 2"

definition MailboxStatusSuspendMask :: int32 where
  "MailboxStatusSuspendMask = NOT 3"

definition MailboxStatusSuspendUnit :: int32 where
  "MailboxStatusSuspendUnit = 4"

definition MailboxStatusSuspendAwaitTask :: int32 where
  "MailboxStatusSuspendAwaitTask = NOT 4"

subsection \<open>The mailbox\<close>

text \<open>
  The struct \<^verbatim>\<open>Mailbox\<close>. The field \<^verbatim>\<open>actor\<close> holds the state of the owning cell
  (type \<open>'a\<close>), \<^verbatim>\<open>messageQueue\<close> and the queue of \<^verbatim>\<open>deadLetterMailbox\<close> hold a queue
  state (type \<open>'q\<close>), \<^verbatim>\<open>systemMailbox\<close> is the lock-free queue of system messages
  (type \<open>'s\<close>) in arrival order. The fields \<^verbatim>\<open>invoker\<close> and \<^verbatim>\<open>dispatcher\<close> are
  references to collaborators whose code is not part of the mailbox; the operations that
  call them take them as arguments.
\<close>

record ('a, 'q, 's) Mailbox =
  actor :: 'a
  messageQueue :: 'q
  deadLetterMailbox :: 'q
  systemMailbox :: "'s list"
  status :: int32

definition currentStatus :: "('a, 'q, 's) Mailbox \<Rightarrow> int32" where
  "currentStatus p = status p"

text \<open>
  \<^verbatim>\<open>atomic.CompareAndSwapInt32(&p.status, oldStatus, newStatus)\<close>: the result and the
  mailbox after the call.
\<close>

definition updateStatus ::
  "('a, 'q, 's) Mailbox \<Rightarrow> int32 \<Rightarrow> int32 \<Rightarrow> bool \<times> ('a, 'q, 's) Mailbox" where
  "updateStatus p oldStatus newStatus =
     (if status p = oldStatus then (True, p\<lparr>status := newStatus\<rparr>) else (False, p))"

definition setStatus :: "('a, 'q, 's) Mailbox \<Rightarrow> int32 \<Rightarrow> ('a, 'q, 's) Mailbox" where
  "setStatus p newStatus = p\<lparr>status := newStatus\<rparr>"

definition shouldProcessMessage :: "('a, 'q, 's) Mailbox \<Rightarrow> bool" where
  "shouldProcessMessage p \<longleftrightarrow> (currentStatus p AND MailboxStatusShouldNotProcessMask) = 0"

definition isSuspended :: "('a, 'q, 's) Mailbox \<Rightarrow> bool" where
  "isSuspended p \<longleftrightarrow> (currentStatus p AND MailboxStatusSuspendMask) \<noteq> 0"

definition isClosed :: "('a, 'q, 's) Mailbox \<Rightarrow> bool" where
  "isClosed p \<longleftrightarrow> currentStatus p = MailboxStatusClosed"

definition isScheduled :: "('a, 'q, 's) Mailbox \<Rightarrow> bool" where
  "isScheduled p \<longleftrightarrow> (currentStatus p AND MailboxStatusScheduled) \<noteq> 0"

subsection \<open>Status transitions\<close>

text \<open>
  Each transition reads the status, computes the next one and installs it with a
  compare-and-swap; when the swap fails the source starts over (a recursive call in
  \<^verbatim>\<open>resume\<close>, \<^verbatim>\<open>suspend\<close> and \<^verbatim>\<open>becomeClosed\<close>, the \<^verbatim>\<open>for\<close> loop in
  \<^verbatim>\<open>setAsIdle\<close>). The retry is kept in the model; it terminates because a swap against the
  value just read succeeds when no other thread runs in between.
\<close>

function resume :: "('a, 'q, 's) Mailbox \<Rightarrow> bool \<times> ('a, 'q, 's) Mailbox" where
  "resume p =
     (let status = currentStatus p in
      if status = MailboxStatusClosed then (False, setStatus p MailboxStatusClosed)
      else
        let next = (if MailboxStatusSuspendUnit \<le>s status
                    then status - MailboxStatusSuspendUnit else status);
            (ok, p') = updateStatus p status next
        in if ok then (next <s MailboxStatusSuspendUnit, p') else resume p')"
  by pat_completeness auto
termination
  by (relation "{}") (auto simp: updateStatus_def currentStatus_def)

function suspend :: "('a, 'q, 's) Mailbox \<Rightarrow> bool \<times> ('a, 'q, 's) Mailbox" where
  "suspend p =
     (let status = currentStatus p in
      if status = MailboxStatusClosed then (False, setStatus p MailboxStatusClosed)
      else
        let (ok, p') = updateStatus p status (status + MailboxStatusSuspendUnit)
        in if ok then (status <s MailboxStatusSuspendUnit, p') else suspend p')"
  by pat_completeness auto
termination
  by (relation "{}") (auto simp: updateStatus_def currentStatus_def)

function becomeClosed :: "('a, 'q, 's) Mailbox \<Rightarrow> bool \<times> ('a, 'q, 's) Mailbox" where
  "becomeClosed p =
     (let status = currentStatus p in
      if status = MailboxStatusClosed then (False, setStatus p MailboxStatusClosed)
      else
        let (ok, p') = updateStatus p status MailboxStatusClosed
        in if ok then (True, p') else becomeClosed p')"
  by pat_completeness auto
termination
  by (relation "{}") (auto simp: updateStatus_def currentStatus_def)

text \<open>Go's \<^verbatim>\<open>&^\<close> is AND NOT.\<close>

function setAsIdle :: "('a, 'q, 's) Mailbox \<Rightarrow> bool \<times> ('a, 'q, 's) Mailbox" where
  "setAsIdle p =
     (let status = currentStatus p;
          (ok, p') = updateStatus p status (status AND NOT MailboxStatusScheduled)
      in if ok then (True, p') else setAsIdle p')"
  by pat_completeness auto
termination
  by (relation "{}") (auto simp: updateStatus_def currentStatus_def)

declare resume.simps [simp del] suspend.simps [simp del]
  becomeClosed.simps [simp del] setAsIdle.simps [simp del]

text \<open>The method \<^verbatim>\<open>max\<close> of the mailbox, on Go's \<^verbatim>\<open>int\<close>.\<close>

definition mailbox_max :: "int \<Rightarrow> int \<Rightarrow> int" where
  "mailbox_max a b = (if a > b then a else b)"

subsection \<open>Queue operations\<close>

text \<open>
  \<^verbatim>\<open>akka.MessageQueue\<close> is an interface whose implementations are not among the sources.
  The mailbox is modelled against any implementation: \<open>enq\<close> is the queue's
  \<^verbatim>\<open>Enqueue(receiver, envelope) error\<close> (\<open>None\<close> is \<^verbatim>\<open>nil\<close>) and \<open>deq\<close> its
  \<^verbatim>\<open>Dequeue() (envelope, ok)\<close> (\<open>None\<close> is \<^verbatim>\<open>ok = false\<close>), each with the queue state
  after the call.
\<close>

definition Enqueue ::
  "('q \<Rightarrow> 'r \<Rightarrow> 'e \<Rightarrow> 'x option \<times> 'q) \<Rightarrow> ('a, 'q, 's) Mailbox \<Rightarrow> 'r \<Rightarrow> 'e
     \<Rightarrow> 'x option \<times> ('a, 'q, 's) Mailbox" where
  "Enqueue enq p receiver envelope =
     (let (err, q') = enq (messageQueue p) receiver envelope
      in (err, p\<lparr>messageQueue := q'\<rparr>))"

definition Dequeue ::
  "('q \<Rightarrow> 'e option \<times> 'q) \<Rightarrow> ('a, 'q, 's) Mailbox \<Rightarrow> 'e option \<times> ('a, 'q, 's) Mailbox" where
  "Dequeue deq p =
     (let (envelope, q') = deq (messageQueue p)
      in (envelope, p\<lparr>messageQueue := q'\<rparr>))"

text \<open>
  Modelled from the spec: the queue implementations are missing from the sources. This is
  the FIFO user queue of the specification, unbounded when the capacity is \<open>None\<close> and
  rejecting an envelope at capacity otherwise; \<^verbatim>\<open>Dequeue\<close> on an empty queue answers
  \<^verbatim>\<open>ok = false\<close>. It is the instance at which the theorems below are evaluated.
\<close>

datatype queue_error = ErrQueueFull

definition fifo_Enqueue ::
  "nat option \<Rightarrow> 'e list \<Rightarrow> 'r \<Rightarrow> 'e \<Rightarrow> queue_error option \<times> 'e list" where
  "fifo_Enqueue capacity q receiver envelope =
     (case capacity of
        None \<Rightarrow> (None, q @ [envelope])
      | Some c \<Rightarrow> if c \<le> length q then (Some ErrQueueFull, q) else (None, q @ [envelope]))"

definition fifo_Dequeue :: "'e list \<Rightarrow> 'e option \<times> 'e list" where
  "fifo_Dequeue q = (case q of [] \<Rightarrow> (None, q) | envelope # rest \<Rightarrow> (Some envelope, rest))"

subsection \<open>The run loop\<close>

text \<open>
  What a run does to its collaborators is recorded as a list of events, in the order of the
  calls: \<open>Invoke next\<close> is the call \<^verbatim>\<open>p.invoker.Invoke(next)\<close>, and
  \<open>RegisterForExecution p a b\<close> the call
  \<^verbatim>\<open>p.Dispatcher().RegisterForExecution(p, a, b)\<close>, with the mailbox as it is when the
  dispatcher receives it.

  The invoker is an argument \<open>invoke\<close>: applied to the envelope and the mailbox, it answers
  how the call ended and the mailbox after it, so an invocation may suspend or close the
  mailbox, enqueue messages and change the cell. A call that panics unwinds the run
  (\<open>Panicked\<close>); deferred functions still execute.
\<close>

datatype outcome = Returned | Panicked

datatype ('e, 'm) event = Invoke 'e | RegisterForExecution 'm bool bool

record Dispatcher =
  Throughput :: int

type_synonym ('e, 'a, 'q, 's) invoker =
  "'e \<Rightarrow> ('a, 'q, 's) Mailbox \<Rightarrow> outcome \<times> ('a, 'q, 's) Mailbox"

type_synonym ('e, 'a, 'q, 's) run_result =
  "outcome \<times> ('a, 'q, 's) Mailbox \<times> ('e, ('a, 'q, 's) Mailbox) event list"

text \<open>\<^verbatim>\<open>processAllSystemMessages\<close>: the body is the single statement \<^verbatim>\<open>return\<close>.\<close>

definition processAllSystemMessages :: "('a, 'q, 's) Mailbox \<Rightarrow> ('a, 'q, 's) Mailbox" where
  "processAllSystemMessages p = p"

text \<open>
  \<^verbatim>\<open>processMailbox(left)\<close>. Go's \<^verbatim>\<open>int\<close> is modelled by \<open>int\<close>: \<^verbatim>\<open>left\<close> is only
  compared with 1 and decremented while it is greater than 1, so it never overflows.
\<close>

function processMailbox ::
  "('q \<Rightarrow> 'e option \<times> 'q) \<Rightarrow> ('e, 'a, 'q, 's) invoker \<Rightarrow> int \<Rightarrow> ('a, 'q, 's) Mailbox
     \<Rightarrow> ('e, 'a, 'q, 's) run_result" where
  "processMailbox deq invoke left p =
     (if shouldProcessMessage p then
        (case Dequeue deq p of
           (None, p1) \<Rightarrow> (Returned, p1, [])
         | (Some next, p1) \<Rightarrow>
             (case invoke next p1 of
                (Panicked, p2) \<Rightarrow> (Panicked, p2, [Invoke next])
              | (Returned, p2) \<Rightarrow>
                  (let p3 = processAllSystemMessages p2 in
                   if left > 1 then
                     (let (out, p4, evs) = processMailbox deq invoke (left - 1) p3
                      in (out, p4, Invoke next # evs))
                   else (Returned, p3, [Invoke next]))))
      else (Returned, p, []))"
  by pat_completeness auto
termination
  by (relation "measure (\<lambda>(deq, invoke, left, p). nat left)") auto

declare processMailbox.simps [simp del]

text \<open>
  \<^verbatim>\<open>Run\<close>. The deferred function runs when the body returns and when it panics:
  \<^verbatim>\<open>setAsIdle\<close>, then the registration with the dispatcher. The dispatcher \<open>d\<close> is what
  \<^verbatim>\<open>p.Dispatcher()\<close> answers.
\<close>

definition Run ::
  "('q \<Rightarrow> 'e option \<times> 'q) \<Rightarrow> ('e, 'a, 'q, 's) invoker \<Rightarrow> Dispatcher \<Rightarrow> ('a, 'q, 's) Mailbox
     \<Rightarrow> ('e, 'a, 'q, 's) run_result" where
  "Run deq invoke d p =
     (let (out, p1, evs) =
            (if \<not> isClosed p then
               processMailbox deq invoke (mailbox_max 1 (Throughput d)) (processAllSystemMessages p)
             else (Returned, p, []));
          (idle, p2) = setAsIdle p1
      in (out, p2, evs @ [RegisterForExecution p2 False False]))"

subsection \<open>Reading a list of events\<close>

text \<open>The envelopes handed to the invoker, and the registrations asked of the dispatcher.\<close>

fun invoked :: "('e, 'm) event list \<Rightarrow> 'e list" where
  "invoked [] = []"
| "invoked (Invoke envelope # evs) = envelope # invoked evs"
| "invoked (RegisterForExecution m a b # evs) = invoked evs"

fun registrations :: "('e, 'm) event list \<Rightarrow> ('m \<times> bool \<times> bool) list" where
  "registrations [] = []"
| "registrations (Invoke envelope # evs) = registrations evs"
| "registrations (RegisterForExecution m a b # evs) = (m, a, b) # registrations evs"

subsection \<open>Sequences of calls\<close>

text \<open>\<open>repeated n f p\<close> is the mailbox after \<open>n\<close> calls of the operation \<open>f\<close>.\<close>

fun repeated :: "nat \<Rightarrow> ('m \<Rightarrow> bool \<times> 'm) \<Rightarrow> 'm \<Rightarrow> 'm" where
  "repeated 0 f p = p"
| "repeated (Suc n) f p = repeated n f (snd (f p))"

text \<open>The four status transitions as a datatype, and a sequence of them run in order.\<close>

datatype transition = Suspend | Resume | BecomeClosed | SetAsIdle

fun call :: "transition \<Rightarrow> ('a, 'q, 's) Mailbox \<Rightarrow> bool \<times> ('a, 'q, 's) Mailbox" where
  "call Suspend p = suspend p"
| "call Resume p = resume p"
| "call BecomeClosed p = becomeClosed p"
| "call SetAsIdle p = setAsIdle p"

fun calls :: "transition list \<Rightarrow> ('a, 'q, 's) Mailbox \<Rightarrow> ('a, 'q, 's) Mailbox" where
  "calls [] p = p"
| "calls (t # ts) p = calls ts (snd (call t p))"

section \<open>Closed forms of the transitions\<close>

lemmas status_consts = MailboxStatusOpen_def MailboxStatusClosed_def MailboxStatusScheduled_def
  MailboxStatusShouldNotProcessMask_def MailboxStatusSuspendMask_def MailboxStatusSuspendUnit_def

lemma resume_eq:
  "resume p =
     (if status p = MailboxStatusClosed then (False, p\<lparr>status := MailboxStatusClosed\<rparr>)
      else if MailboxStatusSuspendUnit \<le>s status p
        then (status p - MailboxStatusSuspendUnit <s MailboxStatusSuspendUnit,
              p\<lparr>status := status p - MailboxStatusSuspendUnit\<rparr>)
        else (status p <s MailboxStatusSuspendUnit, p\<lparr>status := status p\<rparr>))"
  by (subst resume.simps) (simp add: currentStatus_def updateStatus_def setStatus_def Let_def)

lemma suspend_eq:
  "suspend p =
     (if status p = MailboxStatusClosed then (False, p\<lparr>status := MailboxStatusClosed\<rparr>)
      else (status p <s MailboxStatusSuspendUnit,
            p\<lparr>status := status p + MailboxStatusSuspendUnit\<rparr>))"
  by (subst suspend.simps) (simp add: currentStatus_def updateStatus_def setStatus_def Let_def)

lemma becomeClosed_eq:
  "becomeClosed p = (status p \<noteq> MailboxStatusClosed, p\<lparr>status := MailboxStatusClosed\<rparr>)"
  by (subst becomeClosed.simps) (simp add: currentStatus_def updateStatus_def setStatus_def Let_def)

lemma setAsIdle_eq:
  "setAsIdle p = (True, p\<lparr>status := status p AND NOT MailboxStatusScheduled\<rparr>)"
  by (subst setAsIdle.simps) (simp add: currentStatus_def updateStatus_def Let_def)

section \<open>The status word\<close>

lemma word32_le_2_cases:
  assumes "(s::32 word) \<le> 2" shows "s = 0 \<or> s = 1 \<or> s = 2"
proof -
  from assms have "unat s \<le> 2" by (simp add: word_le_nat_alt)
  then have "unat s = unat (0::32 word) \<or> unat s = unat (1::32 word) \<or> unat s = unat (2::32 word)"
    by (simp only: unat_0 unat_1 unat_numeral) (simp, arith)
  then show ?thesis by (simp only: word_unat_eq_iff [symmetric])
qed

lemma and_not_2_zero:
  assumes "(s::32 word) AND NOT 2 = 0" shows "s AND 2 = s"
proof -
  have "(s AND 2) OR (s AND NOT 2) = s AND (2 OR NOT 2)"
    by (rule bit.conj_disj_distrib [symmetric])
  also have "\<dots> = s" by simp
  finally have "(s AND 2) OR (s AND NOT 2) = s" .
  then show ?thesis by (simp only: assms or.right_neutral)
qed

text \<open>The mask \<^verbatim>\<open>^2\<close> leaves two statuses: open and idle (0), open and scheduled (2).\<close>

lemma shouldProcessMessage_iff:
  "shouldProcessMessage p \<longleftrightarrow> status p = 0 \<or> status p = 2"
proof
  assume "shouldProcessMessage p"
  then have z: "status p AND NOT 2 = 0"
    by (simp add: shouldProcessMessage_def currentStatus_def MailboxStatusShouldNotProcessMask_def)
  then have "status p AND 2 = status p"
    by (rule and_not_2_zero)
  then have "status p \<le> 2"
    by (metis word_and_le1)
  then have "status p = 0 \<or> status p = 1 \<or> status p = 2"
    by (rule word32_le_2_cases)
  moreover have "status p \<noteq> 1"
  proof
    assume "status p = 1"
    with z show False by simp
  qed
  ultimately show "status p = 0 \<or> status p = 2" by blast
next
  assume "status p = 0 \<or> status p = 2"
  then show "shouldProcessMessage p"
    by (auto simp: shouldProcessMessage_def currentStatus_def MailboxStatusShouldNotProcessMask_def)
qed

subsection \<open>Closing\<close>

text \<open>
  C7. \<^verbatim>\<open>becomeClosed\<close> leaves the status exactly \<^verbatim>\<open>MailboxStatusClosed\<close>, whatever
  the Scheduled bit and the suspend count were, and touches no other field. It answers true
  exactly when the mailbox was not closed before; on a closed mailbox the mailbox is
  unchanged and the answer is false, so a second call changes nothing.
\<close>

theorem becomeClosed_forces_closed:
  "snd (becomeClosed p) = p\<lparr>status := MailboxStatusClosed\<rparr>
   \<and> status (snd (becomeClosed p)) = MailboxStatusClosed
   \<and> \<not> isScheduled (snd (becomeClosed p))
   \<and> \<not> isSuspended (snd (becomeClosed p))
   \<and> (\<not> isClosed p \<longrightarrow> fst (becomeClosed p))
   \<and> (isClosed p \<longrightarrow> becomeClosed p = (False, p))
   \<and> becomeClosed (snd (becomeClosed p)) = (False, snd (becomeClosed p))"
  by (simp add: becomeClosed_eq isClosed_def isScheduled_def isSuspended_def
      currentStatus_def status_consts)

theorem becomeClosed_forces_closed_witness:
  "\<not> isClosed \<lparr>actor = (), messageQueue = [1::nat], deadLetterMailbox = [],
       systemMailbox = [7::nat], status = 14\<rparr>
   \<and> becomeClosed \<lparr>actor = (), messageQueue = [1::nat], deadLetterMailbox = [],
       systemMailbox = [7::nat], status = 14\<rparr>
     = (True, \<lparr>actor = (), messageQueue = [1], deadLetterMailbox = [],
       systemMailbox = [7], status = 1\<rparr>)
   \<and> isClosed \<lparr>actor = (), messageQueue = [1::nat], deadLetterMailbox = [],
       systemMailbox = [7::nat], status = 1\<rparr>
   \<and> becomeClosed \<lparr>actor = (), messageQueue = [1::nat], deadLetterMailbox = [],
       systemMailbox = [7::nat], status = 1\<rparr>
     = (False, \<lparr>actor = (), messageQueue = [1], deadLetterMailbox = [],
       systemMailbox = [7], status = 1\<rparr>)"
  using becomeClosed_forces_closed [of "\<lparr>actor = (), messageQueue = [1::nat],
      deadLetterMailbox = [], systemMailbox = [7::nat], status = 14\<rparr>"]
    becomeClosed_forces_closed [of "\<lparr>actor = (), messageQueue = [1::nat],
      deadLetterMailbox = [], systemMailbox = [7::nat], status = 1\<rparr>"]
  by (simp add: isClosed_def currentStatus_def MailboxStatusClosed_def prod_eq_iff)

subsection \<open>Going idle\<close>

text \<open>
  C9. For every status, \<^verbatim>\<open>setAsIdle\<close> answers true and clears the Scheduled bit and
  nothing else: the closed bit and the suspend counter (the bits under
  \<^verbatim>\<open>MailboxStatusSuspendMask\<close>) are as before, and so is every other field.
\<close>

theorem setAsIdle_clears_scheduled_only:
  "setAsIdle p = (True, p\<lparr>status := status p AND NOT MailboxStatusScheduled\<rparr>)
   \<and> \<not> isScheduled (snd (setAsIdle p))
   \<and> status (snd (setAsIdle p)) AND MailboxStatusClosed = status p AND MailboxStatusClosed
   \<and> status (snd (setAsIdle p)) AND MailboxStatusSuspendMask
       = status p AND MailboxStatusSuspendMask"
  by (simp add: setAsIdle_eq isScheduled_def currentStatus_def status_consts and.assoc)

subsection \<open>Closed is terminal\<close>

lemma closed_bit_odd: "(s::32 word) AND MailboxStatusClosed \<noteq> 0 \<longleftrightarrow> odd s"
  by (simp add: MailboxStatusClosed_def and_one_eq mod_2_eq_odd)

lemma odd_suspend: "odd (status (snd (suspend p))) \<longleftrightarrow> odd (status p)"
  by (simp add: suspend_eq status_consts)

lemma odd_resume: "odd (status (snd (resume p))) \<longleftrightarrow> odd (status p)"
  by (simp add: resume_eq status_consts)

lemma odd_setAsIdle: "odd (status (snd (setAsIdle p))) \<longleftrightarrow> odd (status p)"
  by (simp add: setAsIdle_eq status_consts even_and_iff)


text \<open>
  C8. Closed is terminal. On a mailbox whose status is \<^verbatim>\<open>MailboxStatusClosed\<close>, each of
  \<^verbatim>\<open>suspend\<close>, \<^verbatim>\<open>resume\<close>, \<^verbatim>\<open>setAsIdle\<close> and \<^verbatim>\<open>becomeClosed\<close> leaves the
  mailbox as it is (so the suspend level is not raised), and \<^verbatim>\<open>suspend\<close>, \<^verbatim>\<open>resume\<close>
  answer false. For any status at all, none of the four clears the closed bit.
\<close>

theorem closed_is_terminal:
  "(isClosed p \<longrightarrow>
      suspend p = (False, p) \<and> resume p = (False, p)
      \<and> setAsIdle p = (True, p) \<and> becomeClosed p = (False, p))
   \<and> (status p AND MailboxStatusClosed \<noteq> 0 \<longrightarrow>
      status (snd (suspend p)) AND MailboxStatusClosed \<noteq> 0
      \<and> status (snd (resume p)) AND MailboxStatusClosed \<noteq> 0
      \<and> status (snd (setAsIdle p)) AND MailboxStatusClosed \<noteq> 0
      \<and> status (snd (becomeClosed p)) AND MailboxStatusClosed \<noteq> 0)"
proof (intro conjI impI)
  assume c: "isClosed p"
  then have s: "status p = 1" by (simp add: isClosed_def currentStatus_def status_consts)
  show "suspend p = (False, p)" using s by (simp add: suspend_eq status_consts)
  show "resume p = (False, p)" using s by (simp add: resume_eq status_consts)
  show "setAsIdle p = (True, p)" using s by (simp add: setAsIdle_eq status_consts)
  show "becomeClosed p = (False, p)" using s by (simp add: becomeClosed_eq status_consts)
next
  assume "status p AND MailboxStatusClosed \<noteq> 0"
  then have o: "odd (status p)" by (simp add: closed_bit_odd)
  show "status (snd (suspend p)) AND MailboxStatusClosed \<noteq> 0"
    using o by (simp add: closed_bit_odd odd_suspend)
  show "status (snd (resume p)) AND MailboxStatusClosed \<noteq> 0"
    using o by (simp add: closed_bit_odd odd_resume)
  show "status (snd (setAsIdle p)) AND MailboxStatusClosed \<noteq> 0"
    using o by (simp add: closed_bit_odd odd_setAsIdle)
  show "status (snd (becomeClosed p)) AND MailboxStatusClosed \<noteq> 0"
    by (simp add: becomeClosed_eq status_consts)
qed


theorem closed_is_terminal_witness:
  "isClosed \<lparr>actor = (), messageQueue = [1::nat], deadLetterMailbox = [],
      systemMailbox = [7::nat], status = 1\<rparr>
   \<and> suspend \<lparr>actor = (), messageQueue = [1::nat], deadLetterMailbox = [],
      systemMailbox = [7::nat], status = 1\<rparr>
     = (False, \<lparr>actor = (), messageQueue = [1], deadLetterMailbox = [],
      systemMailbox = [7], status = 1\<rparr>)
   \<and> resume \<lparr>actor = (), messageQueue = [1::nat], deadLetterMailbox = [],
      systemMailbox = [7::nat], status = 1\<rparr>
     = (False, \<lparr>actor = (), messageQueue = [1], deadLetterMailbox = [],
      systemMailbox = [7], status = 1\<rparr>)
   \<and> status \<lparr>actor = (), messageQueue = [1::nat], deadLetterMailbox = [],
      systemMailbox = [7::nat], status = 7\<rparr> AND MailboxStatusClosed \<noteq> 0
   \<and> status (snd (resume \<lparr>actor = (), messageQueue = [1::nat], deadLetterMailbox = [],
      systemMailbox = [7::nat], status = 7\<rparr>)) AND MailboxStatusClosed \<noteq> 0"
  using closed_is_terminal [of "\<lparr>actor = (), messageQueue = [1::nat],
      deadLetterMailbox = [], systemMailbox = [7::nat], status = 1\<rparr>"]
    closed_is_terminal [of "\<lparr>actor = (), messageQueue = [1::nat],
      deadLetterMailbox = [], systemMailbox = [7::nat], status = 7\<rparr>"]
  by (simp add: isClosed_def currentStatus_def MailboxStatusClosed_def)

subsection \<open>Statuses reachable from a new mailbox\<close>

text \<open>
  The four transitions keep this invariant: the status is \<^verbatim>\<open>MailboxStatusClosed\<close> or its
  closed bit is clear. Wrap-around of the suspend counter keeps it too, since adding or
  subtracting 4 does not change bit 0.
\<close>

lemma calls_inv:
  "status p = MailboxStatusClosed \<or> even (status p) \<Longrightarrow>
   status (calls ts p) = MailboxStatusClosed \<or> even (status (calls ts p))"
proof (induction ts arbitrary: p)
  case Nil
  then show ?case by simp
next
  case (Cons t ts)
  have "status (snd (call t p)) = MailboxStatusClosed \<or> even (status (snd (call t p)))"
  proof (cases t)
    case Suspend
    with Cons.prems show ?thesis by (auto simp: suspend_eq status_consts)
  next
    case Resume
    with Cons.prems show ?thesis by (auto simp: resume_eq status_consts)
  next
    case BecomeClosed
    then show ?thesis by (simp add: becomeClosed_eq)
  next
    case SetAsIdle
    with Cons.prems show ?thesis by (auto simp: setAsIdle_eq status_consts even_and_iff)
  qed
  from Cons.IH [OF this] show ?case by simp
qed


text \<open>
  C10. A new mailbox has status 0. After any sequence of \<^verbatim>\<open>suspend\<close>, \<^verbatim>\<open>resume\<close>,
  \<^verbatim>\<open>becomeClosed\<close> and \<^verbatim>\<open>setAsIdle\<close> calls, a status with the closed bit set is exactly
  \<^verbatim>\<open>MailboxStatusClosed\<close>; so \<^verbatim>\<open>isClosed\<close> agrees with a test of the closed bit, and
  right after \<^verbatim>\<open>becomeClosed\<close> neither \<^verbatim>\<open>isScheduled\<close> nor \<^verbatim>\<open>isSuspended\<close> holds.
\<close>

theorem reachable_closed_exact:
  assumes "status p0 = MailboxStatusOpen"
  shows "(status (calls ts p0) AND MailboxStatusClosed \<noteq> 0
            \<longrightarrow> status (calls ts p0) = MailboxStatusClosed)
    \<and> (isClosed (calls ts p0) \<longleftrightarrow> status (calls ts p0) AND MailboxStatusClosed \<noteq> 0)
    \<and> \<not> isScheduled (snd (becomeClosed (calls ts p0)))
    \<and> \<not> isSuspended (snd (becomeClosed (calls ts p0)))"
proof -
  let ?p = "calls ts p0"
  have "status p0 = MailboxStatusClosed \<or> even (status p0)"
    using assms by (simp add: status_consts)
  then have inv: "status ?p = MailboxStatusClosed \<or> even (status ?p)"
    by (rule calls_inv)
  have a: "status ?p AND MailboxStatusClosed \<noteq> 0 \<longrightarrow> status ?p = MailboxStatusClosed"
    using inv by (auto simp add: closed_bit_odd)
  have b: "isClosed ?p \<longleftrightarrow> status ?p AND MailboxStatusClosed \<noteq> 0"
    using a by (auto simp: isClosed_def currentStatus_def status_consts)
  have c: "\<not> isScheduled (snd (becomeClosed ?p)) \<and> \<not> isSuspended (snd (becomeClosed ?p))"
    by (simp add: becomeClosed_eq isScheduled_def isSuspended_def currentStatus_def status_consts)
  from a b c show ?thesis by blast
qed

theorem reachable_closed_exact_witness:
  "status \<lparr>actor = (), messageQueue = ([]::nat list), deadLetterMailbox = [],
      systemMailbox = ([]::nat list), status = 0\<rparr> = MailboxStatusOpen
   \<and> status (calls [Suspend, Suspend, SetAsIdle, BecomeClosed, Resume]
        \<lparr>actor = (), messageQueue = ([]::nat list), deadLetterMailbox = [],
         systemMailbox = ([]::nat list), status = 0\<rparr>) AND MailboxStatusClosed \<noteq> 0
   \<and> status (calls [Suspend, Suspend, SetAsIdle, BecomeClosed, Resume]
        \<lparr>actor = (), messageQueue = ([]::nat list), deadLetterMailbox = [],
         systemMailbox = ([]::nat list), status = 0\<rparr>) = MailboxStatusClosed"
  using reachable_closed_exact [of "\<lparr>actor = (), messageQueue = ([]::nat list),
      deadLetterMailbox = [], systemMailbox = ([]::nat list), status = 0\<rparr>"
      "[Suspend, Suspend, SetAsIdle, BecomeClosed, Resume]"]
  by (simp add: suspend_eq resume_eq setAsIdle_eq becomeClosed_eq status_consts)

subsection \<open>Nested suspension\<close>

lemma sint32_of_int:
  "- 2147483648 \<le> x \<Longrightarrow> x < 2147483648 \<Longrightarrow> sint (word_of_int x :: 32 word) = x"
  by (simp add: int_word_sint)

lemma suspend_level:
  "even (status p) \<Longrightarrow>
   repeated k suspend p = p\<lparr>status := status p + 4 * word_of_nat k\<rparr>"
proof (induction k arbitrary: p)
  case 0
  then show ?case by simp
next
  case (Suc k)
  have ne: "status p \<noteq> MailboxStatusClosed"
    using Suc.prems by (auto simp: status_consts)
  have "even (status (snd (suspend p)))"
    using Suc.prems ne by (simp add: suspend_eq status_consts)
  from Suc.IH [OF this] show ?case
    using ne by (simp add: suspend_eq status_consts algebra_simps)
qed

text \<open>A status with base b (0 or 2) and suspend level j below 2^29, read as a signed number.\<close>

lemma sint_level:
  assumes "b = 0 \<or> b = 2" and "j < 536870912"
  shows "sint (word_of_nat b + 4 * word_of_nat j :: 32 word) = int b + 4 * int j"
proof -
  have "sint (word_of_int (int b + 4 * int j) :: 32 word) = int b + 4 * int j"
    using assms by (intro sint32_of_int) auto
  then show ?thesis by simp
qed

lemma resume_step:
  assumes b: "b = 0 \<or> b = 2" and j: "j < 536870912"
    and s: "status p = word_of_nat b + 4 * word_of_nat j"
  shows "resume p = (j \<le> 1, p\<lparr>status := word_of_nat b + 4 * word_of_nat (j - 1)\<rparr>)"
proof -
  have si: "sint (status p) = int b + 4 * int j"
    unfolding s using b j by (rule sint_level)
  have ne: "status p \<noteq> MailboxStatusClosed"
  proof
    assume "status p = MailboxStatusClosed"
    then have "sint (status p) = 1" by (simp add: status_consts)
    with si b show False by presburger
  qed
  show ?thesis
  proof (cases "j = 0")
    case True
    have "\<not> MailboxStatusSuspendUnit \<le>s status p"
      using si b True by (auto simp: word_sle_eq status_consts)
    moreover have "status p <s MailboxStatusSuspendUnit"
      using si b True by (auto simp: word_sless_alt status_consts)
    ultimately show ?thesis
      using ne True s by (simp add: resume_eq)
  next
    case False
    then obtain i where i: "j = Suc i" by (cases j) auto
    have ge: "MailboxStatusSuspendUnit \<le>s status p"
      using si b i by (auto simp: word_sle_eq status_consts)
    have st: "status p - MailboxStatusSuspendUnit = word_of_nat b + 4 * word_of_nat i"
      unfolding s i by (simp add: status_consts)
    have "sint (status p - MailboxStatusSuspendUnit) = int b + 4 * int i"
      unfolding st using b j i by (intro sint_level) auto
    then have "status p - MailboxStatusSuspendUnit <s MailboxStatusSuspendUnit \<longleftrightarrow> i = 0"
      using b by (auto simp: word_sless_alt status_consts)
    then show ?thesis
      using ne ge st i by (auto simp: resume_eq)
  qed
qed

lemma resume_level:
  assumes "b = 0 \<or> b = 2"
  shows "j < 536870912 \<Longrightarrow> status p = word_of_nat b + 4 * word_of_nat j \<Longrightarrow>
    repeated n resume p = p\<lparr>status := word_of_nat b + 4 * word_of_nat (j - n)\<rparr>"
proof (induction n arbitrary: p j)
  case 0
  then show ?case by simp
next
  case (Suc n)
  have r: "snd (resume p) = p\<lparr>status := word_of_nat b + 4 * word_of_nat (j - 1)\<rparr>"
    using resume_step [OF assms Suc.prems] by simp
  have "repeated n resume (snd (resume p))
        = (snd (resume p))\<lparr>status := word_of_nat b + 4 * word_of_nat (j - 1 - n)\<rparr>"
    using Suc.prems(1) by (intro Suc.IH) (auto simp: r)
  then show ?case by (simp add: r)
qed



text \<open>
  C6, as the code has it. From an open mailbox that is not suspended (status 0 or 2), for
  \<open>1 \<le> k < 2^29\<close>: after \<open>k\<close> calls of \<^verbatim>\<open>suspend\<close> and \<open>k - 1\<close> of \<^verbatim>\<open>resume\<close> the
  mailbox is suspended; the \<open>k\<close>-th \<^verbatim>\<open>resume\<close> gives back the mailbox one started from,
  not suspended; further calls of \<^verbatim>\<open>resume\<close> change nothing. The bound is that of the
  \<^verbatim>\<open>int32\<close> status: the counter is in units of 4, and \<open>4 * 2^29\<close> is \<open>2^31\<close>.
\<close>

theorem suspend_resume_nesting:
  assumes "shouldProcessMessage p" and "1 \<le> k" and "k < 536870912"
  shows "isSuspended (repeated (k - 1) resume (repeated k suspend p))
    \<and> \<not> isSuspended (repeated k resume (repeated k suspend p))
    \<and> repeated k resume (repeated k suspend p) = p
    \<and> repeated (k + n) resume (repeated k suspend p) = p"
proof -
  from assms(1) have "status p = 0 \<or> status p = 2"
    by (simp only: shouldProcessMessage_iff)
  then have "\<exists>b::nat. (b = 0 \<or> b = 2) \<and> status p = word_of_nat b"
  proof
    assume "status p = 0"
    then have "((0::nat) = 0 \<or> (0::nat) = 2) \<and> status p = word_of_nat 0" by simp
    then show ?thesis ..
  next
    assume "status p = 2"
    then have "((2::nat) = 0 \<or> (2::nat) = 2) \<and> status p = word_of_nat 2" by simp
    then show ?thesis ..
  qed
  then obtain b :: nat where b: "b = 0 \<or> b = 2" and sp: "status p = word_of_nat b"
    by blast
  define q where "q = repeated k suspend p"
  have "even (status p)" using b sp by auto
  then have q: "q = p\<lparr>status := word_of_nat b + 4 * word_of_nat k\<rparr>"
    unfolding q_def sp [symmetric] by (rule suspend_level)
  then have sq: "status q = word_of_nat b + 4 * word_of_nat k" by simp
  have lev: "repeated m resume q = q\<lparr>status := word_of_nat b + 4 * word_of_nat (k - m)\<rparr>" for m
    using b assms(3) sq by (rule resume_level)
  have restored: "q\<lparr>status := word_of_nat b + 4 * word_of_nat (0::nat)\<rparr> = p"
    by (simp add: q sp)
  have one: "k - (k - 1) = 1" using assms(2) by simp
  have "isSuspended (repeated (k - 1) resume q)"
    unfolding lev one using b by (auto simp: isSuspended_def currentStatus_def status_consts)
  moreover have "repeated k resume q = p"
    unfolding lev using restored by simp
  moreover have "repeated (k + n) resume q = p"
    unfolding lev using restored by simp
  moreover have "\<not> isSuspended p"
    using b sp by (auto simp: isSuspended_def currentStatus_def status_consts)
  ultimately show ?thesis unfolding q_def by simp
qed


theorem suspend_resume_nesting_witness:
  "shouldProcessMessage \<lparr>actor = (), messageQueue = ([]::nat list), deadLetterMailbox = [],
      systemMailbox = ([]::nat list), status = 2\<rparr>
   \<and> (1::nat) \<le> 3 \<and> (3::nat) < 536870912
   \<and> isSuspended (repeated (3 - 1) resume (repeated 3 suspend
        \<lparr>actor = (), messageQueue = ([]::nat list), deadLetterMailbox = [],
         systemMailbox = ([]::nat list), status = 2\<rparr>))
   \<and> \<not> isSuspended (repeated 3 resume (repeated 3 suspend
        \<lparr>actor = (), messageQueue = ([]::nat list), deadLetterMailbox = [],
         systemMailbox = ([]::nat list), status = 2\<rparr>))
   \<and> repeated (3 + 2) resume (repeated 3 suspend
        \<lparr>actor = (), messageQueue = ([]::nat list), deadLetterMailbox = [],
         systemMailbox = ([]::nat list), status = 2\<rparr>)
       = \<lparr>actor = (), messageQueue = ([]::nat list), deadLetterMailbox = [],
         systemMailbox = ([]::nat list), status = 2\<rparr>"
proof -
  let ?p = "\<lparr>actor = (), messageQueue = ([]::nat list), deadLetterMailbox = [],
      systemMailbox = ([]::nat list), status = 2\<rparr>"
  have h: "shouldProcessMessage ?p"
    by (simp add: shouldProcessMessage_def currentStatus_def status_consts)
  have k1: "(1::nat) \<le> 3" and k2: "(3::nat) < 536870912" by simp_all
  from suspend_resume_nesting [OF h k1 k2, of 2] h k1 k2 show ?thesis by blast
qed

text \<open>
  At \<open>k = 2^29\<close> the status after the suspends is \<open>2^31\<close>, the least \<^verbatim>\<open>int32\<close>. It is not
  \<^verbatim>\<open>>= MailboxStatusSuspendUnit\<close>, so \<^verbatim>\<open>resume\<close> leaves it, and the mailbox is still
  suspended after \<open>k\<close> calls of \<^verbatim>\<open>resume\<close>.
\<close>

lemma resume_at_min:
  "status p = 2147483648 \<Longrightarrow> repeated n resume p = p"
proof (induction n)
  case 0
  show ?case by simp
next
  case (Suc n)
  have "resume p = (True, p\<lparr>status := status p\<rparr>)"
    unfolding resume_eq using Suc.prems by (simp add: status_consts word_sle_eq word_sless_alt)
  then have "snd (resume p) = p" by simp
  with Suc show ?case by simp
qed

theorem suspend_resume_nesting_counterexample:
  "isSuspended (repeated 536870912 resume (repeated 536870912 suspend
     \<lparr>actor = (), messageQueue = ([]::nat list), deadLetterMailbox = [],
      systemMailbox = ([]::nat list), status = MailboxStatusOpen\<rparr>))"
proof -
  let ?p = "\<lparr>actor = (), messageQueue = ([]::nat list), deadLetterMailbox = [],
      systemMailbox = ([]::nat list), status = MailboxStatusOpen\<rparr>"
  have "repeated 536870912 suspend ?p = ?p\<lparr>status := status ?p + 4 * word_of_nat 536870912\<rparr>"
    by (rule suspend_level) (simp add: status_consts)
  then have q: "repeated 536870912 suspend ?p = ?p\<lparr>status := 2147483648\<rparr>"
    by (simp add: status_consts)
  have "repeated 536870912 resume (?p\<lparr>status := 2147483648\<rparr>) = ?p\<lparr>status := 2147483648\<rparr>"
    by (rule resume_at_min) simp
  then show ?thesis
    unfolding q by (simp add: isSuspended_def currentStatus_def status_consts)
qed

section \<open>The run loop\<close>

subsection \<open>One round of the loop\<close>

lemma invoked_append [simp]: "invoked (xs @ ys) = invoked xs @ invoked ys"
  by (induction xs rule: invoked.induct) auto

lemma registrations_append [simp]: "registrations (xs @ ys) = registrations xs @ registrations ys"
  by (induction xs rule: registrations.induct) auto

lemma processMailbox_stops:
  "\<not> shouldProcessMessage p \<Longrightarrow> processMailbox deq invoke left p = (Returned, p, [])"
  by (subst processMailbox.simps) simp

lemma processMailbox_empty:
  "shouldProcessMessage p \<Longrightarrow> Dequeue deq p = (None, p1) \<Longrightarrow>
   processMailbox deq invoke left p = (Returned, p1, [])"
  by (subst processMailbox.simps) simp

lemma processMailbox_panic:
  "shouldProcessMessage p \<Longrightarrow> Dequeue deq p = (Some next, p1) \<Longrightarrow>
   invoke next p1 = (Panicked, p2) \<Longrightarrow>
   processMailbox deq invoke left p = (Panicked, p2, [Invoke next])"
  by (subst processMailbox.simps) simp

lemma processMailbox_last:
  "shouldProcessMessage p \<Longrightarrow> Dequeue deq p = (Some next, p1) \<Longrightarrow>
   invoke next p1 = (Returned, p2) \<Longrightarrow> \<not> 1 < left \<Longrightarrow>
   processMailbox deq invoke left p = (Returned, processAllSystemMessages p2, [Invoke next])"
  by (subst processMailbox.simps) simp

lemma processMailbox_step:
  "shouldProcessMessage p \<Longrightarrow> Dequeue deq p = (Some next, p1) \<Longrightarrow>
   invoke next p1 = (Returned, p2) \<Longrightarrow> 1 < left \<Longrightarrow>
   processMailbox deq invoke (left - 1) (processAllSystemMessages p2) = (out, p4, evs) \<Longrightarrow>
   processMailbox deq invoke left p = (out, p4, Invoke next # evs)"
  by (subst processMailbox.simps) simp

lemma processMailbox_result_induct [case_names stop empty panic last step]:
  assumes stop: "\<And>left p. \<not> shouldProcessMessage p \<Longrightarrow> Q left p (Returned, p, [])"
    and empty: "\<And>left p p1. shouldProcessMessage p \<Longrightarrow> Dequeue deq p = (None, p1) \<Longrightarrow>
        Q left p (Returned, p1, [])"
    and panic: "\<And>left p next p1 p2. shouldProcessMessage p \<Longrightarrow>
        Dequeue deq p = (Some next, p1) \<Longrightarrow> invoke next p1 = (Panicked, p2) \<Longrightarrow>
        Q left p (Panicked, p2, [Invoke next])"
    and last: "\<And>left p next p1 p2. shouldProcessMessage p \<Longrightarrow>
        Dequeue deq p = (Some next, p1) \<Longrightarrow> invoke next p1 = (Returned, p2) \<Longrightarrow>
        \<not> 1 < left \<Longrightarrow>
        Q left p (Returned, processAllSystemMessages p2, [Invoke next])"
    and step: "\<And>left p next p1 p2 out p4 evs. shouldProcessMessage p \<Longrightarrow>
        Dequeue deq p = (Some next, p1) \<Longrightarrow> invoke next p1 = (Returned, p2) \<Longrightarrow>
        1 < left \<Longrightarrow>
        processMailbox deq invoke (left - 1) (processAllSystemMessages p2) = (out, p4, evs) \<Longrightarrow>
        Q (left - 1) (processAllSystemMessages p2) (out, p4, evs) \<Longrightarrow>
        Q left p (out, p4, Invoke next # evs)"
  shows "Q left p (processMailbox deq invoke left p)"
proof (induction "nat left" arbitrary: left p rule: less_induct)
  case less
  show ?case
  proof (cases "shouldProcessMessage p")
    case False
    then show ?thesis by (simp add: processMailbox_stops stop)
  next
    case should: True
    obtain x p1 where d: "Dequeue deq p = (x, p1)" by fastforce
    show ?thesis
    proof (cases x)
      case None
      with should d show ?thesis by (simp add: processMailbox_empty empty)
    next
      case (Some "next")
      obtain r p2 where i: "invoke next p1 = (r, p2)" by fastforce
      show ?thesis
      proof (cases r)
        case Panicked
        with should d Some i show ?thesis by (simp add: processMailbox_panic panic)
      next
        case Returned
        show ?thesis
        proof (cases "1 < left")
          case False
          with should d Some i Returned show ?thesis by (simp add: processMailbox_last last)
        next
          case True
          obtain out p4 evs where
            r: "processMailbox deq invoke (left - 1) (processAllSystemMessages p2) = (out, p4, evs)"
            using prod_cases3 by blast
          have "Q (left - 1) (processAllSystemMessages p2)
                  (processMailbox deq invoke (left - 1) (processAllSystemMessages p2))"
            using True by (intro less.hyps) simp
          then have "Q left p (out, p4, Invoke next # evs)"
            using should d Some i Returned True r by (intro step) simp_all
          moreover have "processMailbox deq invoke left p = (out, p4, Invoke next # evs)"
            using should d Some i Returned True r by (intro processMailbox_step) simp_all
          ultimately show ?thesis by simp
        qed
      qed
    qed
  qed
qed

lemma processMailbox_bound:
  "int (length (invoked (snd (snd (processMailbox deq invoke left p))))) \<le> max 1 left"
  by (induction left p rule: processMailbox_result_induct [where deq = deq and invoke = invoke]) auto

lemma processMailbox_only_invokes:
  "snd (snd (processMailbox deq invoke left p))
     = map Invoke (invoked (snd (snd (processMailbox deq invoke left p))))"
  by (induction left p rule: processMailbox_result_induct [where deq = deq and invoke = invoke]) auto

lemma systemMailbox_Dequeue: "Dequeue deq p = (x, p1) \<Longrightarrow> systemMailbox p1 = systemMailbox p"
  by (auto simp: Dequeue_def split: prod.splits)

lemma processMailbox_systemMailbox:
  assumes quiet: "\<And>envelope q. systemMailbox (snd (invoke envelope q)) = systemMailbox q"
  shows "systemMailbox (fst (snd (processMailbox deq invoke left p))) = systemMailbox p"
proof (induction left p rule: processMailbox_result_induct [where deq = deq and invoke = invoke])
  case (stop left p)
  show ?case by simp
next
  case (empty left p p1)
  then show ?case by (simp add: systemMailbox_Dequeue)
next
  case (panic left p "next" p1 p2)
  from quiet [of "next" p1] panic show ?case by (simp add: systemMailbox_Dequeue)
next
  case (last left p "next" p1 p2)
  from quiet [of "next" p1] last show ?case
    by (simp add: systemMailbox_Dequeue processAllSystemMessages_def)
next
  case (step left p "next" p1 p2 out p4 evs)
  from quiet [of "next" p1] step show ?case
    by (simp add: systemMailbox_Dequeue processAllSystemMessages_def)
qed

lemma Run_eq:
  "Run deq invoke d p =
     (let r = (if isClosed p then (Returned, p, [])
               else processMailbox deq invoke (mailbox_max 1 (Throughput d)) p);
          p2 = (fst (snd r))\<lparr>status := status (fst (snd r)) AND NOT MailboxStatusScheduled\<rparr>
      in (fst r, p2, snd (snd r) @ [RegisterForExecution p2 False False]))"
  by (simp add: Run_def setAsIdle_eq processAllSystemMessages_def Let_def split: prod.splits)

lemma fifo_Dequeue_simps [simp]:
  "fifo_Dequeue [] = (None, [])"
  "fifo_Dequeue (x # xs) = (Some x, xs)"
  by (simp_all add: fifo_Dequeue_def)

lemmas run_eval = Run_eq Let_def isClosed_def isScheduled_def currentStatus_def status_consts
  mailbox_max_def processMailbox.simps shouldProcessMessage_def Dequeue_def
  processAllSystemMessages_def

text \<open>
  With the FIFO queue and an invoker that leaves the user queue alone, the envelopes invoked
  are a prefix of the queue, in order, and the rest is still queued: each envelope dequeued
  is invoked, and nothing else is.
\<close>

lemma Dequeue_fifo:
  "Dequeue fifo_Dequeue p = (None, p1) \<Longrightarrow> messageQueue p = [] \<and> p1 = p"
  "Dequeue fifo_Dequeue p = (Some envelope, p1) \<Longrightarrow> messageQueue p = envelope # messageQueue p1"
  by (cases p; auto simp: Dequeue_def fifo_Dequeue_def split: list.splits)+

lemma processMailbox_fifo_order:
  assumes quiet: "\<And>envelope q. messageQueue (snd (invoke envelope q)) = messageQueue q"
  shows "invoked (snd (snd (processMailbox fifo_Dequeue invoke left p)))
           @ messageQueue (fst (snd (processMailbox fifo_Dequeue invoke left p)))
         = messageQueue p"
proof (induction left p
    rule: processMailbox_result_induct [where deq = fifo_Dequeue and invoke = invoke])
  case (stop left p)
  show ?case by simp
next
  case (empty left p p1)
  from Dequeue_fifo(1) [OF empty(2)] show ?case by simp
next
  case (panic left p "next" p1 p2)
  from quiet [of "next" p1] panic Dequeue_fifo(2) [OF panic(2)] show ?case by simp
next
  case (last left p "next" p1 p2)
  from quiet [of "next" p1] last Dequeue_fifo(2) [OF last(2)] show ?case
    by (simp add: processAllSystemMessages_def)
next
  case (step left p "next" p1 p2 out p4 evs)
  from quiet [of "next" p1] step Dequeue_fifo(2) [OF step(2)] show ?case
    by (simp add: processAllSystemMessages_def)
qed

subsection \<open>The throughput budget\<close>

text \<open>
  C4. In a run, the invoker is called for at most \<open>max 1 t\<close> envelopes, where \<open>t\<close> is the
  dispatcher's throughput (every successful \<^verbatim>\<open>Dequeue\<close> is followed at once by the call of
  the invoker, so this also bounds the envelopes dequeued). The method \<^verbatim>\<open>max\<close> is the
  maximum, so for \<open>t \<le> 0\<close> the bound is 1. Nothing is invoked when
  \<^verbatim>\<open>shouldProcessMessage\<close> is false or the queue is empty; the same holds for the loop
  \<^verbatim>\<open>processMailbox\<close> with any budget left and from any mailbox, hence at any round of it.
\<close>

theorem Run_throughput_bound:
  "int (length (invoked (snd (snd (Run deq invoke d p))))) \<le> max 1 (Throughput d)
   \<and> mailbox_max 1 (Throughput d) = max 1 (Throughput d)
   \<and> (Throughput d \<le> 0 \<longrightarrow> length (invoked (snd (snd (Run deq invoke d p)))) \<le> 1)
   \<and> (\<not> shouldProcessMessage p \<longrightarrow> invoked (snd (snd (Run deq invoke d p))) = [])
   \<and> (fst (Dequeue deq p) = None \<longrightarrow> invoked (snd (snd (Run deq invoke d p))) = [])
   \<and> int (length (invoked (snd (snd (processMailbox deq invoke left p))))) \<le> max 1 left
   \<and> (\<not> shouldProcessMessage p \<longrightarrow> processMailbox deq invoke left p = (Returned, p, []))
   \<and> (shouldProcessMessage p \<and> fst (Dequeue deq p) = None \<longrightarrow>
        processMailbox deq invoke left p = (Returned, snd (Dequeue deq p), []))"
proof -
  let ?t = "mailbox_max 1 (Throughput d)"
  have m: "?t = max 1 (Throughput d)"
    by (simp add: mailbox_max_def max_def)
  have ev: "invoked (snd (snd (Run deq invoke d p)))
      = (if isClosed p then [] else invoked (snd (snd (processMailbox deq invoke ?t p))))"
    by (simp add: Run_eq Let_def)
  have b: "int (length (invoked (snd (snd (processMailbox deq invoke n p))))) \<le> max 1 n" for n
    by (rule processMailbox_bound)
  have bound: "int (length (invoked (snd (snd (Run deq invoke d p))))) \<le> max 1 (Throughput d)"
    using b [of ?t] by (simp add: ev m)
  have low: "Throughput d \<le> 0 \<longrightarrow> length (invoked (snd (snd (Run deq invoke d p)))) \<le> 1"
    using bound by (auto simp: max_def split: if_splits)
  have stop: "\<not> shouldProcessMessage p \<longrightarrow> processMailbox deq invoke n p = (Returned, p, [])" for n
    by (simp add: processMailbox_stops)
  have empty: "shouldProcessMessage p \<and> fst (Dequeue deq p) = None \<longrightarrow>
        processMailbox deq invoke n p = (Returned, snd (Dequeue deq p), [])" for n
    by (cases "Dequeue deq p") (auto simp: processMailbox_empty)
  have rstop: "\<not> shouldProcessMessage p \<longrightarrow> invoked (snd (snd (Run deq invoke d p))) = []"
    using stop [of ?t] by (simp add: ev)
  have rempty: "fst (Dequeue deq p) = None \<longrightarrow> invoked (snd (snd (Run deq invoke d p))) = []"
    using stop [of ?t] empty [of ?t] by (cases "shouldProcessMessage p") (auto simp: ev)
  from bound m low rstop rempty b [of left] stop [of left] empty [of left]
  show ?thesis by blast
qed

theorem Run_throughput_bound_witness:
  "Throughput \<lparr>Throughput = - 3\<rparr> \<le> 0
   \<and> invoked (snd (snd (Run fifo_Dequeue (\<lambda>e m. (Returned, m)) \<lparr>Throughput = - 3\<rparr>
        \<lparr>actor = (), messageQueue = [4::nat, 5, 6], deadLetterMailbox = [],
         systemMailbox = ([]::nat list), status = 2\<rparr>))) = [4]
   \<and> length (invoked (snd (snd (Run fifo_Dequeue (\<lambda>e m. (Returned, m)) \<lparr>Throughput = - 3\<rparr>
        \<lparr>actor = (), messageQueue = [4::nat, 5, 6], deadLetterMailbox = [],
         systemMailbox = ([]::nat list), status = 2\<rparr>)))) \<le> 1
   \<and> \<not> shouldProcessMessage \<lparr>actor = (), messageQueue = [4::nat, 5, 6], deadLetterMailbox = [],
         systemMailbox = ([]::nat list), status = 4\<rparr>
   \<and> invoked (snd (snd (Run fifo_Dequeue (\<lambda>e m. (Returned, m)) \<lparr>Throughput = 2\<rparr>
        \<lparr>actor = (), messageQueue = [4::nat, 5, 6], deadLetterMailbox = [],
         systemMailbox = ([]::nat list), status = 4\<rparr>))) = []
   \<and> shouldProcessMessage \<lparr>actor = (), messageQueue = ([]::nat list), deadLetterMailbox = [],
         systemMailbox = ([]::nat list), status = 0\<rparr>
   \<and> fst (Dequeue fifo_Dequeue \<lparr>actor = (), messageQueue = ([]::nat list), deadLetterMailbox = [],
         systemMailbox = ([]::nat list), status = 0\<rparr>) = None
   \<and> processMailbox fifo_Dequeue (\<lambda>e m. (Returned, m)) 2
        \<lparr>actor = (), messageQueue = ([]::nat list), deadLetterMailbox = [],
         systemMailbox = ([]::nat list), status = 0\<rparr>
       = (Returned, \<lparr>actor = (), messageQueue = ([]::nat list), deadLetterMailbox = [],
         systemMailbox = ([]::nat list), status = 0\<rparr>, [])"
  using Run_throughput_bound [of fifo_Dequeue "\<lambda>e m. (Returned, m)" "\<lparr>Throughput = - 3\<rparr>"
      "\<lparr>actor = (), messageQueue = [4::nat, 5, 6], deadLetterMailbox = [],
         systemMailbox = ([]::nat list), status = 2\<rparr>" 1]
    Run_throughput_bound [of fifo_Dequeue "\<lambda>e m. (Returned, m)" "\<lparr>Throughput = 2\<rparr>"
      "\<lparr>actor = (), messageQueue = [4::nat, 5, 6], deadLetterMailbox = [],
         systemMailbox = ([]::nat list), status = 4\<rparr>" 2]
    Run_throughput_bound [of fifo_Dequeue "\<lambda>e m. (Returned, m)" "\<lparr>Throughput = 2\<rparr>"
      "\<lparr>actor = (), messageQueue = ([]::nat list), deadLetterMailbox = [],
         systemMailbox = ([]::nat list), status = 0\<rparr>" 2]
  by (simp add: run_eval)

subsection \<open>Leaving a run\<close>

text \<open>
  C5. Whatever the mailbox, the invoker and the dispatcher, and however the run ends
  (returning, unwinding from a panic of the invoker, or short-circuited on a closed
  mailbox), the events of a run are invocations followed by one registration
  \<^verbatim>\<open>RegisterForExecution(p, false, false)\<close>, the only one; the mailbox the dispatcher
  receives is the one the run leaves, which is the result of \<^verbatim>\<open>setAsIdle\<close> on the mailbox
  at the end of the body, and its Scheduled bit is clear: \<^verbatim>\<open>setAsIdle\<close> has run before
  the registration.
\<close>

theorem Run_always_cleans_up:
  "snd (snd (Run deq invoke d p))
     = map Invoke (invoked (snd (snd (Run deq invoke d p))))
       @ [RegisterForExecution (fst (snd (Run deq invoke d p))) False False]
   \<and> registrations (snd (snd (Run deq invoke d p)))
     = [(fst (snd (Run deq invoke d p)), False, False)]
   \<and> \<not> isScheduled (fst (snd (Run deq invoke d p)))
   \<and> fst (snd (Run deq invoke d p))
     = snd (setAsIdle (if isClosed p then p
         else fst (snd (processMailbox deq invoke (mailbox_max 1 (Throughput d)) p))))"
proof -
  have inv: "invoked (map Invoke xs :: ('a, 'm) event list) = xs" for xs :: "'a list"
    by (induction xs) auto
  have reg: "registrations (map Invoke xs :: ('a, 'm) event list) = []" for xs :: "'a list"
    by (induction xs) auto
  define r where "r = (if isClosed p then (Returned, p, [])
               else processMailbox deq invoke (mailbox_max 1 (Throughput d)) p)"
  have only: "snd (snd r) = map Invoke (invoked (snd (snd r)))"
    unfolding r_def using processMailbox_only_invokes [of deq invoke "mailbox_max 1 (Throughput d)" p]
    by simp
  have "registrations (snd (snd r)) = []"
    by (subst only) (rule reg)
  moreover have "(status (fst (snd r)) AND NOT MailboxStatusScheduled) AND MailboxStatusScheduled = 0"
    by (simp add: status_consts and.assoc)
  moreover have "fst (snd r) = (if isClosed p then p
         else fst (snd (processMailbox deq invoke (mailbox_max 1 (Throughput d)) p)))"
    by (simp add: r_def)
  ultimately show ?thesis
    using only
    by (simp add: Run_eq Let_def r_def [symmetric] isScheduled_def currentStatus_def setAsIdle_eq)
qed

text \<open>A run whose first invocation panics, after suspending the mailbox.\<close>

lemma Run_panic_example:
  "Run fifo_Dequeue (\<lambda>e m. (Panicked, snd (suspend m))) \<lparr>Throughput = 3\<rparr>
        \<lparr>actor = (), messageQueue = [4::nat, 5], deadLetterMailbox = [],
         systemMailbox = ([]::nat list), status = 2\<rparr>
     = (Panicked,
        \<lparr>actor = (), messageQueue = [5], deadLetterMailbox = [],
         systemMailbox = [], status = 4\<rparr>,
        [Invoke 4, RegisterForExecution \<lparr>actor = (), messageQueue = [5], deadLetterMailbox = [],
         systemMailbox = [], status = 4\<rparr> False False])"
  by (simp add: run_eval suspend_eq)

subsection \<open>A run on a closed mailbox\<close>

text \<open>
  C3, as the code has it. On a closed mailbox \<^verbatim>\<open>Run\<close> returns with the mailbox as it
  was: the user queue, the system queue and the dead-letter queue are untouched and nothing
  is invoked. The deferred function still runs, so one registration
  \<^verbatim>\<open>RegisterForExecution(p, false, false)\<close> is issued.
\<close>

theorem Run_on_closed_mailbox:
  assumes "isClosed p"
  shows "Run deq invoke d p = (Returned, p, [RegisterForExecution p False False])"
proof -
  from assms have s: "status p = 1"
    by (simp add: isClosed_def currentStatus_def status_consts)
  then have "p\<lparr>status := 1\<rparr> = p"
    by (cases p) simp
  with assms s show ?thesis
    by (simp add: Run_eq Let_def status_consts)
qed

theorem Run_on_closed_mailbox_witness:
  "isClosed \<lparr>actor = (), messageQueue = [4::nat, 5], deadLetterMailbox = [6],
         systemMailbox = [9::nat], status = 1\<rparr>
   \<and> Run fifo_Dequeue (\<lambda>e m. (Panicked, m)) \<lparr>Throughput = 3\<rparr>
        \<lparr>actor = (), messageQueue = [4::nat, 5], deadLetterMailbox = [6],
         systemMailbox = [9::nat], status = 1\<rparr>
     = (Returned,
        \<lparr>actor = (), messageQueue = [4, 5], deadLetterMailbox = [6],
         systemMailbox = [9], status = 1\<rparr>,
        [RegisterForExecution \<lparr>actor = (), messageQueue = [4, 5], deadLetterMailbox = [6],
         systemMailbox = [9], status = 1\<rparr> False False])"
proof -
  have h: "isClosed \<lparr>actor = (), messageQueue = [4::nat, 5], deadLetterMailbox = [6],
         systemMailbox = [9::nat], status = 1\<rparr>"
    by (simp add: isClosed_def currentStatus_def status_consts)
  from Run_on_closed_mailbox [OF h] h show ?thesis by simp
qed

text \<open>
  A closed mailbox with one user message and one system message: after the run both are
  still queued, the dead-letter queue is still empty, and the dispatcher has been asked to
  register the mailbox.
\<close>

theorem Run_closed_counterexample:
  "isClosed \<lparr>actor = (), messageQueue = [1::nat], deadLetterMailbox = [],
         systemMailbox = [7::nat], status = MailboxStatusClosed\<rparr>
   \<and> fst (snd (Run fifo_Dequeue (\<lambda>e m. (Returned, m)) \<lparr>Throughput = 1\<rparr>
        \<lparr>actor = (), messageQueue = [1::nat], deadLetterMailbox = [],
         systemMailbox = [7::nat], status = MailboxStatusClosed\<rparr>))
     = \<lparr>actor = (), messageQueue = [1], deadLetterMailbox = [],
         systemMailbox = [7], status = MailboxStatusClosed\<rparr>
   \<and> registrations (snd (snd (Run fifo_Dequeue (\<lambda>e m. (Returned, m)) \<lparr>Throughput = 1\<rparr>
        \<lparr>actor = (), messageQueue = [1::nat], deadLetterMailbox = [],
         systemMailbox = [7::nat], status = MailboxStatusClosed\<rparr>)))
     = [(\<lparr>actor = (), messageQueue = [1], deadLetterMailbox = [],
         systemMailbox = [7], status = MailboxStatusClosed\<rparr>, False, False)]"
  by (simp add: run_eval)

subsection \<open>System messages\<close>

text \<open>
  C1, as the code has it. \<^verbatim>\<open>processAllSystemMessages\<close> is called before the loop and
  after each invocation, and returns at once: it leaves the mailbox as it is. So a run takes
  nothing from the system queue: when the invocations leave the system queue alone, it is
  after the run what it was before.
\<close>

theorem Run_never_drains_system_queue:
  assumes "\<forall>envelope q. systemMailbox (snd (invoke envelope q)) = systemMailbox q"
  shows "systemMailbox (fst (snd (Run deq invoke d p))) = systemMailbox p
    \<and> processAllSystemMessages p = p"
proof -
  have "systemMailbox (fst (snd (processMailbox deq invoke left p))) = systemMailbox p" for left
    using assms by (intro processMailbox_systemMailbox) simp
  then show ?thesis
    by (simp add: Run_eq Let_def processAllSystemMessages_def)
qed

theorem Run_never_drains_system_queue_witness:
  "(\<forall>envelope q. systemMailbox (snd ((\<lambda>e (m :: (unit, nat list, nat) Mailbox). (Returned, m)) envelope q))
       = systemMailbox q)
   \<and> systemMailbox (fst (snd (Run fifo_Dequeue (\<lambda>e m. (Returned, m)) \<lparr>Throughput = 5\<rparr>
        \<lparr>actor = (), messageQueue = [1::nat, 2], deadLetterMailbox = [],
         systemMailbox = [7::nat, 8], status = 2\<rparr>))) = [7, 8]"
  using Run_never_drains_system_queue [of "\<lambda>e m. (Returned, m)" fifo_Dequeue "\<lparr>Throughput = 5\<rparr>"
      "\<lparr>actor = (), messageQueue = [1::nat, 2], deadLetterMailbox = [],
         systemMailbox = [7::nat, 8], status = 2\<rparr>"]
  by simp

text \<open>
  An open mailbox with one user message and one pending system message: the user message is
  invoked, the system message is neither invoked nor dequeued.
\<close>

theorem Run_system_queue_counterexample:
  "\<not> isClosed \<lparr>actor = (), messageQueue = [1::nat], deadLetterMailbox = [],
         systemMailbox = [7::nat], status = 2\<rparr>
   \<and> Run fifo_Dequeue (\<lambda>e m. (Returned, m)) \<lparr>Throughput = 1\<rparr>
        \<lparr>actor = (), messageQueue = [1::nat], deadLetterMailbox = [],
         systemMailbox = [7::nat], status = 2\<rparr>
     = (Returned,
        \<lparr>actor = (), messageQueue = [], deadLetterMailbox = [], systemMailbox = [7], status = 0\<rparr>,
        [Invoke 1,
         RegisterForExecution \<lparr>actor = (), messageQueue = [], deadLetterMailbox = [],
           systemMailbox = [7], status = 0\<rparr> False False])"
  by (simp add: run_eval)

section \<open>Enqueue\<close>

text \<open>
  C2, as the code has it. \<^verbatim>\<open>Enqueue\<close> hands the envelope to the user queue whatever the
  status, and answers what the queue answers: it fails exactly when the queue rejects. It
  reads neither the status nor the dead-letter mailbox, which are unchanged.
\<close>

theorem Enqueue_delegates_to_queue:
  "Enqueue enq p receiver envelope
     = (fst (enq (messageQueue p) receiver envelope),
        p\<lparr>messageQueue := snd (enq (messageQueue p) receiver envelope)\<rparr>)
   \<and> deadLetterMailbox (snd (Enqueue enq p receiver envelope)) = deadLetterMailbox p
   \<and> status (snd (Enqueue enq p receiver envelope)) = status p
   \<and> (fst (Enqueue enq p receiver envelope) = None
        \<longleftrightarrow> fst (enq (messageQueue p) receiver envelope) = None)"
  by (simp add: Enqueue_def split: prod.splits)

text \<open>
  On a closed mailbox the envelope is appended to the user queue, and a bounded queue at
  capacity makes \<^verbatim>\<open>Enqueue\<close> fail; the dead-letter queue stays empty.
\<close>

theorem Enqueue_closed_counterexample:
  "isClosed \<lparr>actor = (), messageQueue = [1::nat], deadLetterMailbox = [],
         systemMailbox = ([]::nat list), status = MailboxStatusClosed\<rparr>
   \<and> Enqueue (fifo_Enqueue None)
        \<lparr>actor = (), messageQueue = [1::nat], deadLetterMailbox = [],
         systemMailbox = ([]::nat list), status = MailboxStatusClosed\<rparr> ''receiver'' 2
     = (None, \<lparr>actor = (), messageQueue = [1, 2], deadLetterMailbox = [],
         systemMailbox = [], status = MailboxStatusClosed\<rparr>)
   \<and> Enqueue (fifo_Enqueue (Some 1))
        \<lparr>actor = (), messageQueue = [1::nat], deadLetterMailbox = [],
         systemMailbox = ([]::nat list), status = MailboxStatusClosed\<rparr> ''receiver'' 2
     = (Some ErrQueueFull, \<lparr>actor = (), messageQueue = [1], deadLetterMailbox = [],
         systemMailbox = [], status = MailboxStatusClosed\<rparr>)"
  by (simp add: isClosed_def currentStatus_def Enqueue_def fifo_Enqueue_def)

end
